theory Spec2Isabelle
  imports Main "HOL-Library.Sublist"
begin

section \<open>Data model\<close>

text \<open>
  A parsed JSON document, as Python's \<open>json\<close> module hands it over: \<open>None\<close>, a bool, a
  number, a \<open>str\<close>, a \<open>list\<close> or a \<open>dict\<close>. A dict is an association list read with
  \<^const>\<open>map_of\<close>. No function of the repository looks inside a number, so integers stand
  for all of them. Strings are byte strings (UTF-8).
\<close>

datatype json =
    JNull
  | JBool bool
  | JNum int
  | JStr string
  | JList "json list"
  | JObj "(string \<times> json) list"

text \<open>
  The exceptions the modelled code can meet. \<open>RequestException\<close> is what
  \<^verbatim>\<open>session.post\<close> raises itself (connection failure, timeout), with its message;
  \<open>HTTPError\<close> comes from \<^verbatim>\<open>raise_for_status\<close>, \<open>JSONDecodeError\<close> from
  \<^verbatim>\<open>response.json()\<close>, \<open>ValidationError\<close> from the pydantic model, and the others
  from Python's own operations on a value of the wrong shape.
\<close>

datatype error =
    RequestException string
  | HTTPError nat
  | JSONDecodeError
  | AttributeError
  | TypeError
  | KeyError
  | IndexError
  | ValidationError

text \<open>\<^verbatim>\<open>class SerpedSite(BaseModel)\<close> (src/serp.py, lines 22-27).\<close>

record SerpedSite =
  url :: string
  title :: string
  snippet :: string
  rich_snippet :: "string list option"
  source :: "string option"

text \<open>
  What the HTTP client gives back when it gives anything back: the status code, and the
  body as \<^verbatim>\<open>response.json()\<close> parses it (\<open>None\<close> when the body is not JSON).
\<close>

record response =
  status_code :: nat
  json_body :: "json option"

text \<open>
  The search provider is the outside world: a state \<open>'w\<close> and a function that answers the
  POST for a query from a state, returning either the exception \<^verbatim>\<open>session.post\<close> raises
  or the response, and the next state. The rest of the payload and the headers are
  constants of the source. The rate limiter (\<^verbatim>\<open>@sleep_and_retry @limits\<close>) only delays
  a call and is not part of the model.
\<close>

type_synonym 'w provider = "'w \<Rightarrow> string \<Rightarrow> (error + response) \<times> 'w"


section \<open>Python and library operations the code uses\<close>

text \<open>\<^verbatim>\<open>response.raise_for_status()\<close>: an \<open>HTTPError\<close> for a 4xx or 5xx status.\<close>

definition raise_for_status :: "response \<Rightarrow> error + unit" where
  "raise_for_status r =
     (if 400 \<le> status_code r \<and> status_code r < 600 then Inl (HTTPError (status_code r))
      else Inr ())"

text \<open>\<^verbatim>\<open>response.json()\<close>.\<close>

definition response_json :: "response \<Rightarrow> error + json" where
  "response_json r = (case json_body r of None \<Rightarrow> Inl JSONDecodeError | Some v \<Rightarrow> Inr v)"

text \<open>\<^verbatim>\<open>x.get(key, default)\<close>: only a dict has the method.\<close>

fun dict_get :: "json \<Rightarrow> string \<Rightarrow> json \<Rightarrow> error + json" where
  "dict_get (JObj d) k dflt = Inr (case map_of d k of None \<Rightarrow> dflt | Some v \<Rightarrow> v)"
| "dict_get _ k dflt = Inl AttributeError"

text \<open>
  \<^verbatim>\<open>x[key]\<close> with a string key: a dict without the key raises \<open>KeyError\<close>, a list or a
  string refuses the index with \<open>TypeError\<close>, and nothing else can be subscripted.
\<close>

fun getitem :: "json \<Rightarrow> string \<Rightarrow> error + json" where
  "getitem (JObj d) k = (case map_of d k of None \<Rightarrow> Inl KeyError | Some v \<Rightarrow> Inr v)"
| "getitem _ k = Inl TypeError"

text \<open>
  \<^verbatim>\<open>xs[:n]\<close> on a sequence: a negative \<open>n\<close> counts from the end, and nothing is out of
  range.
\<close>

definition py_slice :: "'a list \<Rightarrow> int \<Rightarrow> 'a list" where
  "py_slice xs n =
     (if 0 \<le> n then take (nat n) xs else take (length xs - nat (- n)) xs)"

text \<open>
  The one-character strings Python iterates a string into. A string is held as its UTF-8
  bytes, Python counts code points: a code point is a byte that is no continuation byte
  (\<open>0x80\<close> to \<open>0xBF\<close>) together with the continuation bytes that follow it.
\<close>

definition continuation_byte :: "char \<Rightarrow> bool" where
  "continuation_byte c = (128 \<le> (of_char c :: nat) \<and> (of_char c :: nat) < 192)"

fun code_points :: "string \<Rightarrow> string list" where
  "code_points [] = []"
| "code_points (c # cs) =
     (case code_points cs of
        [] \<Rightarrow> [[c]]
      | g # gs \<Rightarrow>
          (case g of
             [] \<Rightarrow> [c] # g # gs
           | b # bs \<Rightarrow> if continuation_byte b then (c # g) # gs else [c] # g # gs))"

text \<open>
  \<^verbatim>\<open>x[:n]\<close> followed by iteration, on a JSON value: a list gives its elements, a string its
  one-character strings; a dict refuses the slice (with \<open>TypeError\<close>, from Python 3.12 with
  \<open>KeyError\<close>: an exception either way), and \<open>None\<close>, a bool or a number cannot be
  subscripted.
\<close>

fun slice_items :: "json \<Rightarrow> int \<Rightarrow> error + json list" where
  "slice_items (JList xs) n = Inr (py_slice xs n)"
| "slice_items (JStr s) n = Inr (map JStr (py_slice (code_points s) n))"
| "slice_items _ n = Inl TypeError"

text \<open>
  The pydantic validation of a field annotated \<open>str\<close>, and of one annotated
  \<open>Optional[str]\<close>: a string is kept, \<open>None\<close> is accepted by the optional field only, and
  any other JSON value fails the validation (pydantic 2 does not turn numbers into strings).
\<close>

fun validate_str :: "json \<Rightarrow> error + string" where
  "validate_str (JStr s) = Inr s"
| "validate_str _ = Inl ValidationError"

fun validate_opt_str :: "json \<Rightarrow> error + string option" where
  "validate_opt_str (JStr s) = Inr (Some s)"
| "validate_opt_str JNull = Inr None"
| "validate_opt_str _ = Inl ValidationError"

text \<open>
  \<^verbatim>\<open>SerpedSite(url=.., title=.., snippet=.., source=..)\<close>: the four keyword arguments are
  validated, and \<open>rich_snippet\<close>, which the caller never passes, takes its default \<open>None\<close>.
\<close>

definition SerpedSite_init :: "json \<Rightarrow> json \<Rightarrow> json \<Rightarrow> json \<Rightarrow> error + SerpedSite" where
  "SerpedSite_init u t s src =
     (case (validate_str u, validate_str t, validate_str s, validate_opt_str src) of
        (Inr u', Inr t', Inr s', Inr src') \<Rightarrow>
          Inr \<lparr>url = u', title = t', snippet = s', rich_snippet = None, source = src'\<rparr>
      | _ \<Rightarrow> Inl ValidationError)"

text \<open>
  \<^verbatim>\<open>urllib.parse.quote_plus\<close> on the UTF-8 bytes of a query: letters, digits and
  \<open>_.-~\<close> are kept, a space becomes \<open>+\<close>, and every other byte becomes \<open>%XX\<close>.
\<close>

definition unreserved :: "char \<Rightarrow> bool" where
  "unreserved c =
     (c \<in> set ''ABCDEFGHIJKLMNOPQRSTUVWXYZabcdefghijklmnopqrstuvwxyz0123456789_.-~'')"

definition hex_digit :: "nat \<Rightarrow> char" where
  "hex_digit n = ''0123456789ABCDEF'' ! (n mod 16)"

definition quote_char :: "char \<Rightarrow> string" where
  "quote_char c =
     (if unreserved c then [c]
      else if c = CHR '' '' then ''+''
      else [CHR ''%'', hex_digit ((of_char c :: nat) div 16), hex_digit (of_char c :: nat)])"

definition quote_plus :: "string \<Rightarrow> string" where
  "quote_plus s = concat (map quote_char s)"

text \<open>\<^verbatim>\<open>xs[i]\<close> with a non-negative index.\<close>

definition py_index :: "'a list \<Rightarrow> nat \<Rightarrow> error + 'a" where
  "py_index xs i = (if i < length xs then Inr (xs ! i) else Inl IndexError)"


section \<open>The single-query fetcher: \<open>fetch_serper\<close> (src/serp.py, lines 32-86)\<close>

text \<open>
  The body of the loop at lines 78-84. The first \<^verbatim>\<open>site_data.get\<close> already fails on
  anything that is not a dict.
\<close>

fun make_site :: "json \<Rightarrow> error + SerpedSite" where
  "make_site (JObj d) =
     SerpedSite_init
       (case map_of d ''link'' of None \<Rightarrow> JStr '''' | Some v \<Rightarrow> v)
       (case map_of d ''title'' of None \<Rightarrow> JStr '''' | Some v \<Rightarrow> v)
       (if map_of d ''snippet'' \<noteq> None
        then (case map_of d ''snippet'' of None \<Rightarrow> JStr '''' | Some v \<Rightarrow> v)
        else JStr '''')
       (case map_of d ''source'' of None \<Rightarrow> JStr '''' | Some v \<Rightarrow> v)"
| "make_site _ = Inl AttributeError"

text \<open>The loop at lines 77-84, with the list \<open>sites\<close> passed through.\<close>

fun build_sites :: "json list \<Rightarrow> SerpedSite list \<Rightarrow> error + SerpedSite list" where
  "build_sites [] sites = Inr sites"
| "build_sites (site_data # rest) sites =
     (case make_site site_data of
        Inl e \<Rightarrow> Inl e
      | Inr site \<Rightarrow> build_sites rest (sites @ [site]))"

definition fetch_serper ::
  "'w provider \<Rightarrow> 'w \<Rightarrow> string \<Rightarrow> int \<Rightarrow> (error + SerpedSite list) \<times> 'w" where
  "fetch_serper post w query num_sites_per_query =
     (case post w query of
        (Inl e, w') \<Rightarrow> (Inl e, w')
      | (Inr r, w') \<Rightarrow>
          (case raise_for_status r of
             Inl e \<Rightarrow> Inl e
           | Inr _ \<Rightarrow>
               (case response_json r of
                  Inl e \<Rightarrow> Inl e
                | Inr data \<Rightarrow>
                    (case dict_get data ''organic'' (JList []) of
                       Inl e \<Rightarrow> Inl e
                     | Inr organic \<Rightarrow>
                         (case slice_items organic num_sites_per_query of
                            Inl e \<Rightarrow> Inl e
                          | Inr items \<Rightarrow> build_sites items []))),
           w'))"


text \<open>
  The mapping policy in the specification's words: a field of the raw record, or the empty
  string when the key is absent.
\<close>

definition field_or_empty :: "(string \<times> json) list \<Rightarrow> string \<Rightarrow> json" where
  "field_or_empty d k = (case map_of d k of None \<Rightarrow> JStr [] | Some v \<Rightarrow> v)"

text \<open>
  A record of the shape the model class accepts: a JSON object whose \<open>link\<close>, \<open>title\<close>
  and \<open>snippet\<close>, when present, are strings, and whose \<open>source\<close>, when present, is a
  string or \<open>null\<close>.
\<close>

fun is_str :: "json \<Rightarrow> bool" where
  "is_str (JStr s) = True"
| "is_str _ = False"

fun provider_record :: "json \<Rightarrow> bool" where
  "provider_record (JObj d) =
     (is_str (field_or_empty d ''link'') \<and> is_str (field_or_empty d ''title'')
      \<and> is_str (field_or_empty d ''snippet'')
      \<and> (is_str (field_or_empty d ''source'') \<or> field_or_empty d ''source'' = JNull))"
| "provider_record _ = False"


section \<open>The batch fetcher: \<open>fetch_serper_batch_by_limit\<close> (src/serp.py, lines 89-121)\<close>

text \<open>
  An element of the returned list: the sites of a query, or the exception its call raised
  (\<^verbatim>\<open>list[SerpedSite] | Exception\<close>).
\<close>

datatype outcome = Sites "SerpedSite list" | Failed error

text \<open>The loop at lines 111-120: \<^verbatim>\<open>try\<close> the fetch, append the sites or the exception.\<close>

fun batch_loop ::
  "'w provider \<Rightarrow> 'w \<Rightarrow> string list \<Rightarrow> int \<Rightarrow> outcome list \<Rightarrow> outcome list \<times> 'w" where
  "batch_loop post w [] n results = (results, w)"
| "batch_loop post w (query # rest) n results =
     (case fetch_serper post w query n of
        (Inr sites, w') \<Rightarrow> batch_loop post w' rest n (results @ [Sites sites])
      | (Inl e, w') \<Rightarrow> batch_loop post w' rest n (results @ [Failed e]))"

definition fetch_serper_batch_by_limit ::
  "'w provider \<Rightarrow> 'w \<Rightarrow> string list \<Rightarrow> int \<Rightarrow> outcome list \<times> 'w" where
  "fetch_serper_batch_by_limit post w queries num_sites_per_query =
     batch_loop post w queries num_sites_per_query []"

text \<open>The outcome that records what a call of the single-query fetcher did.\<close>

definition outcome_of :: "error + SerpedSite list \<Rightarrow> outcome" where
  "outcome_of res = (case res of Inr sites \<Rightarrow> Sites sites | Inl e \<Rightarrow> Failed e)"

text \<open>
  The contract in the specification's words: one outcome per query, in the order of the
  queries, each recording the call of the single-query fetcher in the state the previous
  queries left.
\<close>

fun outcomes_in_order :: "'w provider \<Rightarrow> 'w \<Rightarrow> string list \<Rightarrow> int \<Rightarrow> outcome list" where
  "outcomes_in_order post w [] n = []"
| "outcomes_in_order post w (query # rest) n =
     outcome_of (fst (fetch_serper post w query n))
       # outcomes_in_order post (snd (fetch_serper post w query n)) rest n"

text \<open>The state of the provider after the first \<open>i\<close> queries of a batch.\<close>

definition state_after :: "'w provider \<Rightarrow> 'w \<Rightarrow> string list \<Rightarrow> int \<Rightarrow> nat \<Rightarrow> 'w" where
  "state_after post w queries n i =
     fold (\<lambda>query w. snd (fetch_serper post w query n)) (take i queries) w"


section \<open>The interlacer: \<open>get_in_factor_order\<close> (src/serp.py, lines 124-145)\<close>

text \<open>
  \<^verbatim>\<open>max_len = max(len(lst) for lst in lists) if lists else 0\<close>

  Python's \<open>max\<close> over a generator folds the elements from left to right, starting with the
  first one; the guard \<open>if lists\<close> keeps it away from the empty sequence.
\<close>

definition max_len :: "'a list list \<Rightarrow> nat" where
  "max_len lsts = (case map length lsts of [] \<Rightarrow> 0 | n # ns \<Rightarrow> fold max ns n)"

text \<open>
  The inner loop \<^verbatim>\<open>for lst in lists: if i < len(lst): result.append(lst[i])\<close>, with the
  list \<open>result\<close> passed through.
\<close>

fun visit_lists :: "nat \<Rightarrow> 'a list list \<Rightarrow> 'a list \<Rightarrow> 'a list" where
  "visit_lists i [] result = result"
| "visit_lists i (lst # rest) result =
     visit_lists i rest (if i < length lst then result @ [lst ! i] else result)"

text \<open>The outer loop \<^verbatim>\<open>for i in range(max_len)\<close>, over the positions still to visit.\<close>

fun visit_positions :: "nat list \<Rightarrow> 'a list list \<Rightarrow> 'a list \<Rightarrow> 'a list" where
  "visit_positions [] lsts result = result"
| "visit_positions (i # is) lsts result =
     visit_positions is lsts (visit_lists i lsts result)"

definition get_in_factor_order :: "'a list list \<Rightarrow> 'a list" where
  "get_in_factor_order lsts = visit_positions [0..<max_len lsts] lsts []"

text \<open>
  The specification's wording of the algorithm: the elements found at rank position \<open>i\<close>,
  taken from each list that has one, in the lists' given order; and the round robin that
  strings the positions together.
\<close>

definition at_position :: "nat \<Rightarrow> 'a list list \<Rightarrow> 'a list" where
  "at_position i lsts = map (\<lambda>lst. lst ! i) (filter (\<lambda>lst. i < length lst) lsts)"

definition round_robin :: "nat \<Rightarrow> 'a list list \<Rightarrow> 'a list" where
  "round_robin n lsts = concat (map (\<lambda>i. at_position i lsts) [0..<n])"


section \<open>The orchestrator: \<open>serp_and_process\<close> (src/serp.py, lines 148-199)\<close>

text \<open>
  The loop at lines 181-185 over \<^verbatim>\<open>enumerate(results)\<close>: a failed query prints a line
  naming the original query and the error, a successful one appends its list. The printed
  lines are kept as pairs of the query and the error.
\<close>

fun partition_loop ::
  "string list \<Rightarrow> nat \<Rightarrow> outcome list \<Rightarrow> SerpedSite list list \<Rightarrow> (string \<times> error) list \<Rightarrow>
   error + (SerpedSite list list \<times> (string \<times> error) list)" where
  "partition_loop search_queries idx [] fetched_sites_lists printed =
     Inr (fetched_sites_lists, printed)"
| "partition_loop search_queries idx (Failed e # rest) fetched_sites_lists printed =
     (case py_index search_queries idx of
        Inl e' \<Rightarrow> Inl e'
      | Inr q \<Rightarrow>
          partition_loop search_queries (Suc idx) rest fetched_sites_lists (printed @ [(q, e)]))"
| "partition_loop search_queries idx (Sites sites # rest) fetched_sites_lists printed =
     partition_loop search_queries (Suc idx) rest (fetched_sites_lists @ [sites]) printed"

text \<open>The loop at lines 191-196, with the set \<open>seen\<close> and the list \<open>deduped_sites\<close>.\<close>

fun dedup_loop :: "SerpedSite list \<Rightarrow> string set \<Rightarrow> SerpedSite list \<Rightarrow> SerpedSite list" where
  "dedup_loop [] seen deduped_sites = deduped_sites"
| "dedup_loop (site # rest) seen deduped_sites =
     (if url site \<notin> seen
      then dedup_loop rest (insert (url site) seen) (deduped_sites @ [site])
      else dedup_loop rest seen deduped_sites)"

text \<open>
  The result of the orchestrator: the returned list or the exception that escapes, the
  lines printed, and the state of the provider afterwards.
\<close>

definition serp_and_process ::
  "'w provider \<Rightarrow> 'w \<Rightarrow> string list \<Rightarrow> int \<Rightarrow>
   (error + SerpedSite list) \<times> (string \<times> error) list \<times> 'w" where
  "serp_and_process post w search_queries num_sites_per_query =
     (let encoded_queries = map quote_plus search_queries;
          (results, w') = fetch_serper_batch_by_limit post w encoded_queries num_sites_per_query
      in case partition_loop search_queries 0 results [] [] of
           Inl e \<Rightarrow> (Inl e, [], w')
         | Inr (fetched_sites_lists, printed) \<Rightarrow>
             (if fetched_sites_lists \<noteq> []
              then Inr (dedup_loop (get_in_factor_order fetched_sites_lists) {} [])
              else Inr [],
              printed, w'))"

text \<open>The successful queries' result lists among the outcomes, in the outcomes' order.\<close>

fun successes :: "outcome list \<Rightarrow> SerpedSite list list" where
  "successes [] = []"
| "successes (Sites sites # rest) = sites # successes rest"
| "successes (Failed e # rest) = successes rest"



text \<open>
  Deduplication in the specification's words: of a sequence, the elements whose \<open>url\<close>
  no earlier element has, in the order of the sequence.
\<close>

definition first_occurrences :: "SerpedSite list \<Rightarrow> SerpedSite list" where
  "first_occurrences xs =
     map (\<lambda>i. xs ! i) (filter (\<lambda>i. url (xs ! i) \<notin> url ` set (take i xs)) [0..<length xs])"

text \<open>
  The interlaced sequence of a run: the interlacing of the result lists of the queries
  that succeeded, which the orchestrator then deduplicates.
\<close>

definition interlaced_sites :: "'w provider \<Rightarrow> 'w \<Rightarrow> string list \<Rightarrow> int \<Rightarrow> SerpedSite list" where
  "interlaced_sites post w search_queries n =
     get_in_factor_order
       (successes (fst (fetch_serper_batch_by_limit post w (map quote_plus search_queries) n)))"


section \<open>The scrape call: \<open>scrape_url\<close> (src/scrape.py, lines 21-72)\<close>

text \<open>The payload of the request and its timeout, which the scrape provider answers.\<close>

record scrape_request =
  url_to_scrape :: string
  formats :: "string list"
  wait_before_scraping :: int
  request_timeout :: int

type_synonym 'w scraper = "'w \<Rightarrow> scrape_request \<Rightarrow> (error + response) \<times> 'w"

text \<open>
  Line 72 is \<^verbatim>\<open>return data["result"].get(f"{format}_content")\<close>: the one-argument
  \<open>get\<close> returns \<open>None\<close>, here \<^const>\<open>JNull\<close>, for a missing key.
\<close>

definition scrape_url ::
  "'w scraper \<Rightarrow> 'w \<Rightarrow> string \<Rightarrow> string \<Rightarrow> int \<Rightarrow> int \<Rightarrow> (error + json) \<times> 'w" where
  "scrape_url post w page_url format wait_ms timeout =
     (case post w \<lparr>url_to_scrape = page_url, formats = [format],
                   wait_before_scraping = wait_ms, request_timeout = timeout\<rparr> of
        (Inl e, w') \<Rightarrow> (Inl e, w')
      | (Inr r, w') \<Rightarrow>
          (case raise_for_status r of
             Inl e \<Rightarrow> Inl e
           | Inr _ \<Rightarrow>
               (case response_json r of
                  Inl e \<Rightarrow> Inl e
                | Inr data \<Rightarrow>
                    (case getitem data ''result'' of
                       Inl e \<Rightarrow> Inl e
                     | Inr result \<Rightarrow> dict_get result (format @ ''_content'') JNull)),
           w'))"


section \<open>Canned providers, to run the model on concrete inputs\<close>

text \<open>
  A provider given by a table from queries to responses; a query outside the table cannot
  be reached. Its state counts the calls.
\<close>

definition table_post :: "(string \<times> response) list \<Rightarrow> nat provider" where
  "table_post tbl w query =
     (case map_of tbl query of
        None \<Rightarrow> (Inl (RequestException ''unreachable''), Suc w)
      | Some r \<Rightarrow> (Inr r, Suc w))"

definition ok_response :: "json \<Rightarrow> response" where
  "ok_response body = \<lparr>status_code = 200, json_body = Some body\<rparr>"

definition const_scraper :: "response \<Rightarrow> nat scraper" where
  "const_scraper r w req = (Inr r, Suc w)"

text \<open>Three raw records and a table of responses: two result pages, a body without
  \<open>organic\<close>, and a server error.\<close>

definition site_a :: json where
  "site_a = JObj [(''link'', JStr ''https://a.example''), (''title'', JStr ''A''),
                  (''snippet'', JStr ''about a''), (''source'', JStr ''Pub'')]"

definition site_b :: json where
  "site_b = JObj [(''link'', JStr ''https://b.example''), (''title'', JStr ''B'')]"

definition site_a2 :: json where
  "site_a2 = JObj [(''link'', JStr ''https://a.example''), (''title'', JStr ''A again''),
                   (''source'', JNull)]"

definition demo_table :: "(string \<times> response) list" where
  "demo_table =
     [(''one'', ok_response (JObj [(''organic'', JList [site_a, site_b])])),
      (''two+words'', ok_response (JObj [(''organic'', JList [site_a2, site_b, site_a])])),
      (''bare'', ok_response (JObj [(''credits'', JNum 1)])),
      (''down'', \<lparr>status_code = 500, json_body = None\<rparr>)]"

text \<open>The sites the three records are mapped to.\<close>

definition page_a :: SerpedSite where
  "page_a = \<lparr>url = ''https://a.example'', title = ''A'', snippet = ''about a'',
              rich_snippet = None, source = Some ''Pub''\<rparr>"

definition page_b :: SerpedSite where
  "page_b = \<lparr>url = ''https://b.example'', title = ''B'', snippet = [],
              rich_snippet = None, source = Some []\<rparr>"

definition page_a2 :: SerpedSite where
  "page_a2 = \<lparr>url = ''https://a.example'', title = ''A again'', snippet = [],
               rich_snippet = None, source = None\<rparr>"


section \<open>Properties of the interlacer\<close>

lemma fold_max_Max: "fold max ns (n::nat) = Max (insert n (set ns))"
proof (induction ns arbitrary: n)
  case Nil
  show ?case by simp
next
  case (Cons m ns)
  have "Max (insert (max m n) (set ns)) = Max (insert n (insert m (set ns)))"
    by (cases "set ns = {}") (simp_all add: max.commute max.left_commute)
  with Cons show ?case by simp
qed

lemma max_len_Max: "lsts \<noteq> [] \<Longrightarrow> max_len lsts = Max (length ` set lsts)"
  by (cases lsts) (simp_all add: max_len_def fold_max_Max)

lemma max_len_Nil: "max_len [] = 0"
  by (simp add: max_len_def)

lemma length_le_max_len: "lst \<in> set lsts \<Longrightarrow> length lst \<le> max_len lsts"
proof -
  assume mem: "lst \<in> set lsts"
  then have ne: "lsts \<noteq> []" by auto
  have "length lst \<le> Max (length ` set lsts)"
    using mem by (intro Max_ge) auto
  with ne show ?thesis by (simp add: max_len_Max)
qed

lemma visit_lists_append: "visit_lists i lsts result = result @ at_position i lsts"
  by (induction lsts arbitrary: result) (simp_all add: at_position_def)

lemma visit_positions_append:
  "visit_positions is lsts result = result @ concat (map (\<lambda>i. at_position i lsts) is)"
  by (induction "is" arbitrary: result) (simp_all add: visit_lists_append)

lemma get_in_factor_order_round_robin:
  "get_in_factor_order lsts = round_robin (max_len lsts) lsts"
  by (simp add: get_in_factor_order_def round_robin_def visit_positions_append)

lemma interlace_example_eval:
  "get_in_factor_order [[a, b], [c, d, e]] = [a, c, b, d, e]"
proof -
  have m: "max_len [[a, b], [c, d, e]] = 3"
    by (simp add: max_len_def)
  have u: "[0..<3] = [0, Suc 0, Suc (Suc 0)]"
    by (simp add: upt_rec numeral_3_eq_3)
  show ?thesis
    by (simp add: get_in_factor_order_def m u)
qed

lemma round_robin_Suc: "round_robin (Suc n) lsts = round_robin n lsts @ at_position n lsts"
  by (simp add: round_robin_def)

lemma round_robin_0: "round_robin 0 lsts = []"
  by (simp add: round_robin_def)

lemma sum_min_Suc:
  "sum_list (map (\<lambda>l. min (Suc n) (length l)) lsts) =
   sum_list (map (\<lambda>l. min n (length l)) lsts) + length (filter (\<lambda>l. n < length l) lsts)"
  by (induction lsts) (auto simp: min_def)

lemma length_round_robin:
  "length (round_robin n lsts) = sum_list (map (\<lambda>l. min n (length l)) lsts)"
proof (induction n)
  case 0
  show ?case by (simp add: round_robin_0)
next
  case (Suc n)
  then show ?case
    by (simp add: round_robin_Suc sum_min_Suc at_position_def)
qed

lemma sum_min_max_len:
  "sum_list (map (\<lambda>l. min (max_len lsts) (length l)) lsts) = sum_list (map length lsts)"
proof -
  have "map (\<lambda>l. min (max_len lsts) (length l)) lsts = map length lsts"
    by (rule map_cong) (simp_all add: length_le_max_len min_absorb2)
  then show ?thesis by (rule arg_cong)
qed

lemma nth_in_at_position:
  "lst \<in> set lsts \<Longrightarrow> n < length lst \<Longrightarrow> lst ! n \<in> set (at_position n lsts)"
  by (auto simp: at_position_def)

lemma subseq_take_round_robin:
  "lst \<in> set lsts \<Longrightarrow> subseq (take n lst) (round_robin n lsts)"
proof (induction n)
  case 0
  show ?case by simp
next
  case (Suc n)
  show ?case
  proof (cases "n < length lst")
    case True
    have one: "subseq [lst ! n] (at_position n lsts)"
      using nth_in_at_position [OF Suc.prems True] by (simp add: subseq_singleton_left)
    have "subseq (take n lst @ [lst ! n]) (round_robin n lsts @ at_position n lsts)"
      using Suc.IH [OF Suc.prems] one by (rule list_emb_append_mono)
    with True show ?thesis
      by (simp add: take_Suc_conv_app_nth round_robin_Suc)
  next
    case False
    have "subseq (take n lst) (round_robin n lsts @ at_position n lsts)"
      using Suc.IH [OF Suc.prems] by (rule subseq_rev_drop_many)
    with False show ?thesis
      by (simp add: round_robin_Suc)
  qed
qed

lemma at_position_all_empty: "\<forall>lst \<in> set lsts. lst = [] \<Longrightarrow> at_position i lsts = []"
  by (auto simp: at_position_def filter_empty_conv)

text \<open>
  C1. The interlacer merges round robin by rank position: for each position \<open>i\<close> from 0 up
  to the maximum input-list length minus 1, it appends the element at position \<open>i\<close> of each
  input list that has one, visiting the lists in their given order (\<^const>\<open>at_position\<close>);
  and \<^verbatim>\<open>[[a, b], [c, d, e]]\<close> is interlaced to \<^verbatim>\<open>[a, c, b, d, e]\<close>.
\<close>

theorem interlace_round_robin:
  "get_in_factor_order lsts = concat (map (\<lambda>i. at_position i lsts) [0..<max_len lsts])
   \<and> (lsts \<noteq> [] \<longrightarrow> max_len lsts = Max (length ` set lsts))
   \<and> (lsts = [] \<longrightarrow> max_len lsts = 0)
   \<and> get_in_factor_order [[a, b], [c, d, e]] = [a, c, b, d, e]"
proof (intro conjI impI)
  show "get_in_factor_order lsts = concat (map (\<lambda>i. at_position i lsts) [0..<max_len lsts])"
    using get_in_factor_order_round_robin [of lsts] by (simp add: round_robin_def)
  show "max_len lsts = Max (length ` set lsts)" if "lsts \<noteq> []"
    using that by (rule max_len_Max)
  show "max_len lsts = 0" if "lsts = []"
    using that by (simp add: max_len_Nil)
  show "get_in_factor_order [[a, b], [c, d, e]] = [a, c, b, d, e]"
    by (rule interlace_example_eval)
qed

theorem interlace_round_robin_witness:
  "max_len [[1, 2], [3, 4, 5 :: nat]] = 3
   \<and> get_in_factor_order [[1, 2], [3, 4, 5 :: nat]] = [1, 3, 2, 4, 5]
   \<and> at_position 1 [[1, 2], [3, 4, 5 :: nat]] = [2, 4]
   \<and> at_position 2 [[1, 2], [3, 4, 5 :: nat]] = [5]"
proof -
  note t = interlace_round_robin [of "[[1, 2], [3, 4, 5 :: nat]]" 1 2 3 4 5]
  have ne: "[[1, 2], [3, 4, 5 :: nat]] \<noteq> []" by simp
  have "max_len [[1, 2], [3, 4, 5 :: nat]] = Max (length ` set [[1, 2], [3, 4, 5 :: nat]])"
    using t ne by blast
  then have m: "max_len [[1, 2], [3, 4, 5 :: nat]] = 3" by simp
  have g: "get_in_factor_order [[1, 2], [3, 4, 5 :: nat]] = [1, 3, 2, 4, 5]"
    using t by blast
  show ?thesis using m g by (simp add: at_position_def)
qed

text \<open>
  C3. The interlaced output is as long as the input lists together, and each input list
  keeps its internal relative order in it: it is a subsequence of the output. This holds
  for all input lists, the non-empty ones of the claim among them.
\<close>

theorem interlace_length_and_order:
  "length (get_in_factor_order lsts) = sum_list (map length lsts)
   \<and> (\<forall>lst \<in> set lsts. subseq lst (get_in_factor_order lsts))"
proof
  show "length (get_in_factor_order lsts) = sum_list (map length lsts)"
    by (simp add: get_in_factor_order_round_robin length_round_robin sum_min_max_len)
  show "\<forall>lst \<in> set lsts. subseq lst (get_in_factor_order lsts)"
  proof
    fix lst assume mem: "lst \<in> set lsts"
    then have "subseq (take (max_len lsts) lst) (round_robin (max_len lsts) lsts)"
      by (rule subseq_take_round_robin)
    moreover have "take (max_len lsts) lst = lst"
      using mem by (simp add: length_le_max_len)
    ultimately show "subseq lst (get_in_factor_order lsts)"
      by (simp add: get_in_factor_order_round_robin)
  qed
qed

theorem interlace_length_and_order_witness:
  "length (get_in_factor_order [''ab'', ''cde'']) = 5
   \<and> subseq ''ab'' (get_in_factor_order [''ab'', ''cde''])
   \<and> subseq ''cde'' (get_in_factor_order [''ab'', ''cde''])"
  using interlace_length_and_order [of "[''ab'', ''cde'']"] by simp

text \<open>
  C8. The interlacer is total on empty input: given no lists at all, or only empty lists,
  it returns the empty list. (The model has no error branch: the only indexing of the
  source, \<^verbatim>\<open>lst[i]\<close>, is guarded by \<^verbatim>\<open>i < len(lst)\<close>, and \<open>max\<close> by
  \<^verbatim>\<open>if lists\<close>.)
\<close>

theorem interlace_empty:
  "get_in_factor_order [] = []
   \<and> ((\<forall>lst \<in> set lsts. lst = []) \<longrightarrow> get_in_factor_order lsts = [])"
proof (intro conjI impI)
  show "get_in_factor_order [] = []"
    by (simp add: get_in_factor_order_def max_len_Nil)
  show "get_in_factor_order lsts = []" if "\<forall>lst \<in> set lsts. lst = []"
    using that
    by (simp add: get_in_factor_order_round_robin round_robin_def at_position_all_empty)
qed

theorem interlace_empty_witness:
  "get_in_factor_order [[], [], [] :: nat list] = []"
proof -
  have "\<forall>lst \<in> set [[], [], [] :: nat list]. lst = []" by simp
  with interlace_empty [of "[[], [], [] :: nat list]"] show ?thesis by blast
qed

section \<open>Properties of the single-query fetcher\<close>

lemma build_sites_acc:
  "build_sites items acc =
     (case build_sites items [] of Inl e \<Rightarrow> Inl e | Inr sites \<Rightarrow> Inr (acc @ sites))"
proof (induction items arbitrary: acc)
  case Nil
  show ?case by simp
next
  case (Cons it items)
  show ?case
  proof (cases "make_site it")
    case (Inl e)
    then show ?thesis by simp
  next
    case (Inr site)
    have "build_sites items (acc @ [site]) =
        (case build_sites items [] of Inl e \<Rightarrow> Inl e | Inr sites \<Rightarrow> Inr ((acc @ [site]) @ sites))"
      by (rule Cons.IH)
    moreover have "build_sites items [site] =
        (case build_sites items [] of Inl e \<Rightarrow> Inl e | Inr sites \<Rightarrow> Inr ([site] @ sites))"
      by (rule Cons.IH)
    ultimately show ?thesis using Inr
      by (simp split: sum.splits)
  qed
qed

lemma build_sites_Cons:
  "build_sites (it # items) [] =
     (case make_site it of
        Inl e \<Rightarrow> Inl e
      | Inr site \<Rightarrow>
          (case build_sites items [] of Inl e \<Rightarrow> Inl e | Inr sites \<Rightarrow> Inr (site # sites)))"
  using build_sites_acc [of items "[x]" for x]
  by (simp split: sum.splits)

lemma build_sites_Inr_iff:
  "build_sites items [] = Inr sites \<longleftrightarrow> list_all2 (\<lambda>it s. make_site it = Inr s) items sites"
proof (induction items arbitrary: sites)
  case Nil
  show ?case by auto
next
  case (Cons it items)
  show ?case
    by (auto simp: build_sites_Cons list_all2_Cons1 Cons.IH [symmetric]
        simp del: build_sites.simps split: sum.splits)
qed

lemma is_str_conv: "is_str v \<longleftrightarrow> (\<exists>s. v = JStr s)"
  by (cases v) simp_all

lemma make_site_JObj:
  "make_site (JObj d) =
     SerpedSite_init (field_or_empty d ''link'') (field_or_empty d ''title'')
       (field_or_empty d ''snippet'') (field_or_empty d ''source'')"
  by (simp add: field_or_empty_def split: option.splits)

lemma make_site_ok: "provider_record it \<Longrightarrow> \<exists>s. make_site it = Inr s"
proof (cases it)
  case (JObj d)
  assume "provider_record it"
  with JObj show ?thesis
    by (auto simp: make_site_JObj SerpedSite_init_def is_str_conv simp del: make_site.simps)
qed simp_all

lemma validate_str_Inr: "validate_str v = Inr s \<longleftrightarrow> v = JStr s"
  by (cases v) auto

lemma validate_opt_str_Inr:
  "validate_opt_str v = Inr x \<longleftrightarrow> v = (case x of None \<Rightarrow> JNull | Some s \<Rightarrow> JStr s)"
  by (cases v; cases x) auto

lemma SerpedSite_init_Inr:
  "SerpedSite_init u t s src = Inr site \<Longrightarrow>
     u = JStr (url site) \<and> t = JStr (title site) \<and> s = JStr (snippet site)
     \<and> src = (case source site of None \<Rightarrow> JNull | Some x \<Rightarrow> JStr x)
     \<and> rich_snippet site = None"
  by (auto simp: SerpedSite_init_def validate_str_Inr validate_opt_str_Inr
      split: sum.splits)

lemma make_site_Inr:
  "make_site it = Inr site \<Longrightarrow>
     \<exists>d. it = JObj d
       \<and> JStr (url site) = field_or_empty d ''link''
       \<and> JStr (title site) = field_or_empty d ''title''
       \<and> JStr (snippet site) = field_or_empty d ''snippet''
       \<and> (case source site of None \<Rightarrow> JNull | Some x \<Rightarrow> JStr x) = field_or_empty d ''source''
       \<and> rich_snippet site = None"
proof (cases it)
  case (JObj d)
  assume "make_site it = Inr site"
  with JObj have "SerpedSite_init (field_or_empty d ''link'') (field_or_empty d ''title'')
       (field_or_empty d ''snippet'') (field_or_empty d ''source'') = Inr site"
    by (simp add: make_site_JObj del: make_site.simps)
  from SerpedSite_init_Inr [OF this] JObj show ?thesis by simp
qed simp_all

lemma fetch_serper_object:
  assumes "post w query = (Inr r, w')" and "raise_for_status r = Inr ()"
    and "json_body r = Some (JObj d)"
  shows "fetch_serper post w query n =
     (case slice_items (case map_of d ''organic'' of None \<Rightarrow> JList [] | Some v \<Rightarrow> v) n of
        Inl e \<Rightarrow> Inl e
      | Inr items \<Rightarrow> build_sites items [],
      w')"
  using assms by (simp add: fetch_serper_def response_json_def)

lemma fetch_serper_array:
  assumes "post w query = (Inr r, w')" and "raise_for_status r = Inr ()"
    and "json_body r = Some (JObj d)" and "map_of d ''organic'' = Some (JList recs)"
  shows "fetch_serper post w query n = (build_sites (py_slice recs n) [], w')"
  using assms by (simp add: fetch_serper_object)

lemma length_py_slice_nonneg: "0 \<le> n \<Longrightarrow> length (py_slice xs n) = min (nat n) (length xs)"
  by (simp add: py_slice_def min.commute)


section \<open>Properties of the batch fetcher and of the fetched sites\<close>

lemma batch_loop_acc:
  "batch_loop post w queries n acc =
     (acc @ outcomes_in_order post w queries n, state_after post w queries n (length queries))"
proof (induction queries arbitrary: w acc)
  case Nil
  show ?case by (simp add: state_after_def)
next
  case (Cons q queries)
  obtain res w' where f: "fetch_serper post w q n = (res, w')"
    by (cases "fetch_serper post w q n")
  show ?case
    by (cases res) (simp_all add: f Cons.IH outcome_of_def state_after_def)
qed

lemma length_outcomes_in_order: "length (outcomes_in_order post w queries n) = length queries"
  by (induction queries arbitrary: w) simp_all

lemma state_after_Suc:
  "state_after post w (q # queries) n (Suc i) =
     state_after post (snd (fetch_serper post w q n)) queries n i"
  by (simp add: state_after_def)

lemma state_after_0: "state_after post w queries n 0 = w"
  by (simp add: state_after_def)

lemma nth_outcomes_in_order:
  "i < length queries \<Longrightarrow>
     outcomes_in_order post w queries n ! i =
       outcome_of (fst (fetch_serper post (state_after post w queries n i) (queries ! i) n))"
proof (induction queries arbitrary: w i)
  case Nil
  then show ?case by simp
next
  case (Cons q queries)
  show ?case
  proof (cases i)
    case 0
    then show ?thesis by (simp add: state_after_0)
  next
    case (Suc j)
    with Cons.prems have "j < length queries" by simp
    from Cons.IH [OF this] Suc show ?thesis
      by (simp add: state_after_Suc)
  qed
qed

lemma batch_outcomes:
  "fetch_serper_batch_by_limit post w queries n =
     (outcomes_in_order post w queries n, state_after post w queries n (length queries))"
  by (simp add: fetch_serper_batch_by_limit_def batch_loop_acc)

lemma demo_fetch_eval:
  "fetch_serper (table_post demo_table) w ''zz'' 3 = (Inl (RequestException ''unreachable''), Suc w)"
  "fetch_serper (table_post demo_table) w ''bare'' 3 = (Inr [], Suc w)"
  "fetch_serper (table_post demo_table) w ''down'' 3 = (Inl (HTTPError 500), Suc w)"
  by (simp_all add: fetch_serper_def table_post_def demo_table_def ok_response_def
      raise_for_status_def response_json_def py_slice_def)

text \<open>
  C5. The batch fetcher returns exactly one outcome per input query, in the order of the
  queries: the outcome at index \<open>i\<close> records what the single-query fetcher did for query
  \<open>i\<close> in the state the earlier queries left, a success holding the result sequence or a
  failure holding the error, and the loop goes on to the end of the queries whatever the
  outcomes. The function has no failing result: every exception of a fetch becomes an
  outcome.
\<close>

theorem batch_one_outcome_per_query:
  "length (fst (fetch_serper_batch_by_limit post w queries N)) = length queries
   \<and> (\<forall>i < length queries.
         fst (fetch_serper_batch_by_limit post w queries N) ! i =
           outcome_of (fst (fetch_serper post (state_after post w queries N i) (queries ! i) N)))
   \<and> snd (fetch_serper_batch_by_limit post w queries N) =
       state_after post w queries N (length queries)"
  by (simp add: batch_outcomes length_outcomes_in_order nth_outcomes_in_order)

theorem batch_one_outcome_per_query_witness:
  "length (fst (fetch_serper_batch_by_limit (table_post demo_table) 0 [''zz'', ''bare'', ''down''] 3)) = 3
   \<and> fst (fetch_serper_batch_by_limit (table_post demo_table) 0 [''zz'', ''bare'', ''down''] 3) ! 0
       = Failed (RequestException ''unreachable'')
   \<and> fst (fetch_serper_batch_by_limit (table_post demo_table) 0 [''zz'', ''bare'', ''down''] 3) ! 1
       = Sites []
   \<and> fst (fetch_serper_batch_by_limit (table_post demo_table) 0 [''zz'', ''bare'', ''down''] 3) ! 2
       = Failed (HTTPError 500)"
proof -
  let ?qs = "[''zz'', ''bare'', ''down'']"
  note t = batch_one_outcome_per_query [of "table_post demo_table" 0 ?qs 3]
  have len: "length (fst (fetch_serper_batch_by_limit (table_post demo_table) 0 ?qs 3)) = 3"
    using t by simp
  have nth: "fst (fetch_serper_batch_by_limit (table_post demo_table) 0 ?qs 3) ! i =
      outcome_of (fst (fetch_serper (table_post demo_table)
        (state_after (table_post demo_table) 0 ?qs 3 i) (?qs ! i) 3))" if "i < 3" for i
    using t that by simp
  have "(0::nat) < 3" "(1::nat) < 3" "(2::nat) < 3" by simp_all
  note n = this [THEN nth]
  show ?thesis
    using len n by (simp add: state_after_def demo_fetch_eval outcome_of_def)
qed

text \<open>
  C10. When the JSON body of the response is an object without an \<open>organic\<close> key,
  \<open>fetch_serper\<close> returns the empty list without raising, and the batch fetcher reports
  the query as a success outcome with zero results and goes on with the other queries.
\<close>

theorem fetch_serper_no_organic_key:
  assumes "post w query = (Inr r, w')" and "raise_for_status r = Inr ()"
    and "json_body r = Some (JObj d)" and "map_of d ''organic'' = None"
  shows "fetch_serper post w query N = (Inr [], w')
     \<and> fetch_serper_batch_by_limit post w (query # rest) N =
         (Sites [] # fst (fetch_serper_batch_by_limit post w' rest N),
          snd (fetch_serper_batch_by_limit post w' rest N))"
proof -
  have f: "fetch_serper post w query N = (Inr [], w')"
    using assms by (simp add: fetch_serper_object py_slice_def)
  have "fetch_serper_batch_by_limit post w (query # rest) N =
      (Sites [] # outcomes_in_order post w' rest N,
       state_after post w' rest N (length rest))"
    by (simp add: batch_outcomes f outcome_of_def state_after_Suc)
  with f show ?thesis by (simp add: batch_outcomes)
qed

lemma build_sites_total:
  "\<forall>it \<in> set items. \<exists>s. make_site it = Inr s \<Longrightarrow> \<exists>sites. build_sites items [] = Inr sites"
proof (induction items)
  case Nil
  show ?case by simp
next
  case (Cons it items)
  then obtain s sites where "make_site it = Inr s" and "build_sites items [] = Inr sites"
    by auto
  then show ?case
    by (simp add: build_sites_Cons del: build_sites.simps)
qed

text \<open>
  C6. For a non-negative \<open>max_results = N\<close> and a response whose \<open>organic\<close> array has
  \<open>M\<close> entries, the sequence \<open>fetch_serper\<close> returns has exactly \<open>N\<close> elements when
  \<open>M \<ge> N\<close> and exactly \<open>M\<close> when \<open>M < N\<close>; and it does return, for any \<open>M\<close>, when the
  entries it reads are records of the provider's format: too few entries are no error.
\<close>

theorem fetch_serper_result_count:
  assumes "post w query = (Inr r, w')" and "raise_for_status r = Inr ()"
    and "json_body r = Some (JObj d)" and "map_of d ''organic'' = Some (JList recs)"
    and "0 \<le> N"
  shows "(\<forall>sites. fst (fetch_serper post w query N) = Inr sites \<longrightarrow>
            (nat N \<le> length recs \<longrightarrow> length sites = nat N)
            \<and> (length recs < nat N \<longrightarrow> length sites = length recs))
     \<and> ((\<forall>rec \<in> set (take (nat N) recs). provider_record rec) \<longrightarrow>
            (\<exists>sites. fst (fetch_serper post w query N) = Inr sites))"
proof (intro conjI allI impI)
  have f: "fetch_serper post w query N = (build_sites (py_slice recs N) [], w')"
    using assms(1-4) by (rule fetch_serper_array)
  fix sites assume "fst (fetch_serper post w query N) = Inr sites"
  then have "list_all2 (\<lambda>it s. make_site it = Inr s) (py_slice recs N) sites"
    by (simp add: f build_sites_Inr_iff)
  then have len: "length sites = min (nat N) (length recs)"
    using assms(5) by (simp add: list_all2_lengthD [symmetric] length_py_slice_nonneg)
  show "length sites = nat N" if "nat N \<le> length recs"
    using len that by simp
  show "length sites = length recs" if "length recs < nat N"
    using len that by simp
next
  have f: "fetch_serper post w query N = (build_sites (py_slice recs N) [], w')"
    using assms(1-4) by (rule fetch_serper_array)
  assume wf: "\<forall>rec \<in> set (take (nat N) recs). provider_record rec"
  have "\<forall>it \<in> set (py_slice recs N). \<exists>s. make_site it = Inr s"
    using wf assms(5) by (simp add: py_slice_def make_site_ok)
  then have "\<exists>sites. build_sites (py_slice recs N) [] = Inr sites"
    by (rule build_sites_total)
  then show "\<exists>sites. fst (fetch_serper post w query N) = Inr sites"
    by (simp add: f)
qed

text \<open>
  C7. Every returned site comes from the raw record at the same position of the truncated
  \<open>organic\<close> array: \<open>link\<close> is mapped to \<open>url\<close>, \<open>title\<close> to \<open>title\<close>, \<open>snippet\<close>
  to \<open>snippet\<close> and \<open>source\<close> to \<open>source\<close>, each the empty string when the key is
  absent, and \<open>rich_snippet\<close> is unset in every returned site.
\<close>

theorem fetch_serper_mapping:
  assumes "post w query = (Inr r, w')" and "raise_for_status r = Inr ()"
    and "json_body r = Some (JObj d)" and "map_of d ''organic'' = Some (JList recs)"
    and "fst (fetch_serper post w query N) = Inr sites"
  shows "length sites = length (py_slice recs N)
     \<and> (\<forall>i < length sites. \<exists>rd. py_slice recs N ! i = JObj rd
           \<and> JStr (url (sites ! i)) = field_or_empty rd ''link''
           \<and> JStr (title (sites ! i)) = field_or_empty rd ''title''
           \<and> JStr (snippet (sites ! i)) = field_or_empty rd ''snippet''
           \<and> (case source (sites ! i) of None \<Rightarrow> JNull | Some x \<Rightarrow> JStr x)
               = field_or_empty rd ''source''
           \<and> rich_snippet (sites ! i) = None)"
proof -
  have f: "fetch_serper post w query N = (build_sites (py_slice recs N) [], w')"
    using assms(1-4) by (rule fetch_serper_array)
  from assms(5) have all2: "list_all2 (\<lambda>it s. make_site it = Inr s) (py_slice recs N) sites"
    by (simp add: f build_sites_Inr_iff)
  then have len: "length sites = length (py_slice recs N)"
    by (simp add: list_all2_lengthD)
  show ?thesis
  proof (intro conjI allI impI)
    show "length sites = length (py_slice recs N)" by (rule len)
    fix i assume "i < length sites"
    with all2 have "make_site (py_slice recs N ! i) = Inr (sites ! i)"
      by (simp add: list_all2_conv_all_nth)
    from make_site_Inr [OF this]
    show "\<exists>rd. py_slice recs N ! i = JObj rd
           \<and> JStr (url (sites ! i)) = field_or_empty rd ''link''
           \<and> JStr (title (sites ! i)) = field_or_empty rd ''title''
           \<and> JStr (snippet (sites ! i)) = field_or_empty rd ''snippet''
           \<and> (case source (sites ! i) of None \<Rightarrow> JNull | Some x \<Rightarrow> JStr x)
               = field_or_empty rd ''source''
           \<and> rich_snippet (sites ! i) = None" .
  qed
qed

lemma demo_post_one:
  "table_post demo_table 0 ''one'' =
     (Inr (ok_response (JObj [(''organic'', JList [site_a, site_b])])), Suc 0)"
  by (simp add: table_post_def demo_table_def)

lemma demo_post_bare:
  "table_post demo_table 0 ''bare'' = (Inr (ok_response (JObj [(''credits'', JNum 1)])), Suc 0)"
  by (simp add: table_post_def demo_table_def)

lemma ok_response_passes:
  "raise_for_status (ok_response body) = Inr ()" "json_body (ok_response body) = Some body"
  by (simp_all add: raise_for_status_def ok_response_def)

lemma demo_records: "provider_record site_a" "provider_record site_b" "provider_record site_a2"
  by (simp_all add: site_a_def site_b_def site_a2_def field_or_empty_def)

theorem fetch_serper_result_count_witness:
  "(\<exists>sites. fst (fetch_serper (table_post demo_table) 0 ''one'' 5) = Inr sites \<and> length sites = 2)
   \<and> (\<exists>sites. fst (fetch_serper (table_post demo_table) 0 ''one'' 1) = Inr sites \<and> length sites = 1)"
proof -
  let ?recs = "[site_a, site_b]"
  let ?d = "[(''organic'', JList ?recs)]"
  have org: "map_of ?d ''organic'' = Some (JList ?recs)" by simp
  have five: "(0::int) \<le> 5" and one: "(0::int) \<le> 1" by simp_all
  note t5 = fetch_serper_result_count
    [where post = "table_post demo_table" and w = 0 and query = "''one''" and N = 5,
      OF demo_post_one ok_response_passes(1) ok_response_passes(2) org five]
  note t1 = fetch_serper_result_count
    [where post = "table_post demo_table" and w = 0 and query = "''one''" and N = 1,
      OF demo_post_one ok_response_passes(1) ok_response_passes(2) org one]
  have wf5: "\<forall>rec \<in> set (take (nat 5) ?recs). provider_record rec"
    by (simp add: demo_records)
  have wf1: "\<forall>rec \<in> set (take (nat 1) ?recs). provider_record rec"
    by (simp add: demo_records)
  from t5 wf5 obtain s5 where s5: "fst (fetch_serper (table_post demo_table) 0 ''one'' 5) = Inr s5"
    by blast
  from t1 wf1 obtain s1 where s1: "fst (fetch_serper (table_post demo_table) 0 ''one'' 1) = Inr s1"
    by blast
  have "length s5 = 2" using t5 s5 by simp
  moreover have "length s1 = 1" using t1 s1 by simp
  ultimately show ?thesis using s5 s1 by blast
qed

theorem fetch_serper_mapping_witness:
  "\<exists>sites. fst (fetch_serper (table_post demo_table) 0 ''one'' 5) = Inr sites
     \<and> length sites = 2
     \<and> url (sites ! 0) = ''https://a.example'' \<and> source (sites ! 0) = Some ''Pub''
     \<and> title (sites ! 1) = ''B'' \<and> snippet (sites ! 1) = [] \<and> source (sites ! 1) = Some []
     \<and> rich_snippet (sites ! 0) = None \<and> rich_snippet (sites ! 1) = None"
proof -
  let ?recs = "[site_a, site_b]"
  let ?d = "[(''organic'', JList ?recs)]"
  have org: "map_of ?d ''organic'' = Some (JList ?recs)" by simp
  obtain sites where ev: "fst (fetch_serper (table_post demo_table) 0 ''one'' 5) = Inr sites"
    by (simp add: fetch_serper_def demo_post_one ok_response_passes response_json_def
        py_slice_def site_a_def site_b_def SerpedSite_init_def)
  note t = fetch_serper_mapping
    [where post = "table_post demo_table" and w = 0 and query = "''one''" and N = 5,
      OF demo_post_one ok_response_passes(1) ok_response_passes(2) org ev]
  have sl: "py_slice ?recs 5 = ?recs" by (simp add: py_slice_def)
  from t have len: "length sites = 2" by (simp add: sl)
  from t len have
    "\<exists>rd. site_a = JObj rd
       \<and> JStr (url (sites ! 0)) = field_or_empty rd ''link''
       \<and> JStr (title (sites ! 0)) = field_or_empty rd ''title''
       \<and> JStr (snippet (sites ! 0)) = field_or_empty rd ''snippet''
       \<and> (case source (sites ! 0) of None \<Rightarrow> JNull | Some x \<Rightarrow> JStr x)
           = field_or_empty rd ''source''
       \<and> rich_snippet (sites ! 0) = None"
    by (auto simp: sl dest!: spec [of _ "0::nat"])
  then have a: "url (sites ! 0) = ''https://a.example'' \<and> source (sites ! 0) = Some ''Pub''
      \<and> rich_snippet (sites ! 0) = None"
    by (auto simp: site_a_def field_or_empty_def split: option.splits)
  from t len have
    "\<exists>rd. site_b = JObj rd
       \<and> JStr (url (sites ! 1)) = field_or_empty rd ''link''
       \<and> JStr (title (sites ! 1)) = field_or_empty rd ''title''
       \<and> JStr (snippet (sites ! 1)) = field_or_empty rd ''snippet''
       \<and> (case source (sites ! 1) of None \<Rightarrow> JNull | Some x \<Rightarrow> JStr x)
           = field_or_empty rd ''source''
       \<and> rich_snippet (sites ! 1) = None"
    by (auto simp: sl dest!: spec [of _ "1::nat"])
  then have b: "title (sites ! 1) = ''B'' \<and> snippet (sites ! 1) = [] \<and> source (sites ! 1) = Some []
      \<and> rich_snippet (sites ! 1) = None"
    by (auto simp: site_b_def field_or_empty_def split: option.splits)
  from ev len a b show ?thesis by blast
qed

theorem fetch_serper_no_organic_key_witness:
  "fetch_serper (table_post demo_table) 0 ''bare'' 10 = (Inr [], Suc 0)
   \<and> fetch_serper_batch_by_limit (table_post demo_table) 0 [''bare''] 10 = ([Sites []], Suc 0)"
proof -
  have org: "map_of [(''credits'', JNum 1)] ''organic'' = None" by simp
  note t = fetch_serper_no_organic_key
    [where post = "table_post demo_table" and w = 0 and query = "''bare''" and N = 10
      and rest = "[]",
      OF demo_post_bare ok_response_passes(1) ok_response_passes(2) org]
  then show ?thesis
    by (simp add: fetch_serper_batch_by_limit_def)
qed


section \<open>Properties of the orchestrator\<close>

lemma partition_loop_total:
  "idx + length results \<le> length search_queries \<Longrightarrow>
     \<exists>printed'. partition_loop search_queries idx results acc printed =
        Inr (acc @ successes results, printed')"
proof (induction results arbitrary: idx acc printed)
  case Nil
  show ?case by simp
next
  case (Cons r results)
  then have step: "Suc idx + length results \<le> length search_queries"
    and here: "idx < length search_queries" by simp_all
  show ?case
  proof (cases r)
    case (Sites sites)
    from Cons.IH [OF step, of "acc @ [sites]" printed] Sites show ?thesis by simp
  next
    case (Failed e)
    from Cons.IH [OF step, of acc "printed @ [(search_queries ! idx, e)]"] Failed here
    show ?thesis by (simp add: py_index_def)
  qed
qed

lemma dedup_loop_acc:
  "dedup_loop xs seen acc = acc @ dedup_loop xs seen []"
proof (induction xs arbitrary: seen acc)
  case Nil
  show ?case by simp
next
  case (Cons x xs)
  show ?case
    using Cons.IH [of "insert (url x) seen" "acc @ [x]"] Cons.IH [of "insert (url x) seen" "[x]"]
      Cons.IH [of seen acc]
    by simp
qed

lemma dedup_loop_Cons:
  "dedup_loop (x # xs) seen [] =
     (if url x \<notin> seen then x # dedup_loop xs (insert (url x) seen) [] else dedup_loop xs seen [])"
  using dedup_loop_acc [of xs "insert (url x) seen" "[x]"] by simp

lemma dedup_loop_urls: "url ` set (dedup_loop xs seen []) = url ` set xs - seen"
  by (induction xs arbitrary: seen) (auto simp: dedup_loop_Cons simp del: dedup_loop.simps(2))

lemma dedup_loop_distinct: "distinct (map url (dedup_loop xs seen []))"
proof (induction xs arbitrary: seen)
  case Nil
  show ?case by simp
next
  case (Cons x xs)
  have "url x \<notin> url ` set (dedup_loop xs (insert (url x) seen) [])"
    by (simp add: dedup_loop_urls)
  with Cons show ?case
    by (simp add: dedup_loop_Cons del: dedup_loop.simps(2))
qed

lemma dedup_loop_subseq: "subseq (dedup_loop xs seen []) xs"
proof (induction xs arbitrary: seen)
  case Nil
  show ?case by simp
next
  case (Cons x xs)
  show ?case
  proof (cases "url x \<in> seen")
    case True
    have "subseq (dedup_loop xs seen []) (x # xs)"
      using Cons.IH [of seen] by (rule list_emb_Cons)
    with True show ?thesis by (simp add: dedup_loop_Cons del: dedup_loop.simps(2))
  next
    case False
    with Cons.IH [of "insert (url x) seen"] show ?thesis
      by (simp add: dedup_loop_Cons del: dedup_loop.simps(2))
  qed
qed

lemma dedup_loop_find:
  "find (\<lambda>s. url s = u) (dedup_loop xs seen []) =
     (if u \<in> seen then None else find (\<lambda>s. url s = u) xs)"
  by (induction xs arbitrary: seen) (auto simp: dedup_loop_Cons simp del: dedup_loop.simps(2))

lemma serp_and_process_sites:
  "fst (serp_and_process post w search_queries N) =
     Inr (dedup_loop (get_in_factor_order
       (successes (fst (fetch_serper_batch_by_limit post w (map quote_plus search_queries) N)))) {} [])"
proof -
  obtain results w' where b:
    "fetch_serper_batch_by_limit post w (map quote_plus search_queries) N = (results, w')"
    by (cases "fetch_serper_batch_by_limit post w (map quote_plus search_queries) N")
  have "length results = length search_queries"
    using b length_outcomes_in_order [of post w "map quote_plus search_queries" N]
    by (simp add: batch_outcomes)
  then have "0 + length results \<le> length search_queries" by simp
  from partition_loop_total [OF this, of "[]" "[]"] obtain printed where
    p: "partition_loop search_queries 0 results [] [] = Inr (successes results, printed)"
    by auto
  have e: "get_in_factor_order [] = ([] :: SerpedSite list)"
    by (simp add: get_in_factor_order_def max_len_Nil)
  show ?thesis
    by (simp add: serp_and_process_def b p e)
qed


lemma dedup_loop_seen:
  "dedup_loop xs seen [] =
     map (\<lambda>i. xs ! i)
       (filter (\<lambda>i. url (xs ! i) \<notin> seen \<union> url ` set (take i xs)) [0..<length xs])"
proof (induction xs arbitrary: seen)
  case Nil
  show ?case by simp
next
  case (Cons x xs)
  have upt: "[0..<Suc (length xs)] = 0 # map Suc [0..<length xs]"
    by (simp add: upt_conv_Cons map_Suc_upt del: upt_Suc)
  have tl: "map (\<lambda>i. (x # xs) ! i)
        (filter (\<lambda>i. url ((x # xs) ! i) \<notin> seen \<union> url ` set (take i (x # xs)))
          (map Suc [0..<length xs])) =
      dedup_loop xs (insert (url x) seen) []"
    by (simp add: Cons.IH filter_map comp_def conj_comms)
  show ?case
  proof (cases "url x \<in> seen")
    case True
    then have "insert (url x) seen = seen" by auto
    with True tl show ?thesis
      by (simp add: dedup_loop_Cons upt del: dedup_loop.simps(2) upt_Suc)
  next
    case False
    with tl show ?thesis
      by (simp add: dedup_loop_Cons upt del: dedup_loop.simps(2) upt_Suc)
  qed
qed

lemma dedup_loop_first_occurrences: "dedup_loop xs {} [] = first_occurrences xs"
  by (simp add: dedup_loop_seen first_occurrences_def)

lemma demo_fetch_pages:
  "fetch_serper (table_post demo_table) w ''one'' 3 = (Inr [page_a, page_b], Suc w)"
  "fetch_serper (table_post demo_table) w ''two+words'' 3 = (Inr [page_a2, page_b, page_a], Suc w)"
  by (simp_all add: fetch_serper_def table_post_def demo_table_def ok_response_def
      raise_for_status_def response_json_def py_slice_def site_a_def site_b_def site_a2_def
      SerpedSite_init_def page_a_def page_b_def page_a2_def)

lemma demo_quote_plus:
  "quote_plus ''one'' = ''one''" "quote_plus ''zz'' = ''zz''" "quote_plus ''down'' = ''down''"
  "quote_plus ''two words'' = ''two+words''"
  by (simp_all add: quote_plus_def quote_char_def unreserved_def)

lemma demo_batch_partial:
  "fst (fetch_serper_batch_by_limit (table_post demo_table) 0
      (map quote_plus [''one'', ''zz'', ''two words'']) 3) =
     [Sites [page_a, page_b], Failed (RequestException ''unreachable''),
      Sites [page_a2, page_b, page_a]]"
  by (simp add: demo_quote_plus batch_outcomes demo_fetch_pages demo_fetch_eval outcome_of_def)


lemma demo_interlaced:
  "get_in_factor_order [[page_a, page_b], [page_a2, page_b, page_a]] =
     [page_a, page_a2, page_b, page_b, page_a]"
  by (rule interlace_example_eval)

lemma demo_urls:
  "url page_a = ''https://a.example''" "url page_b = ''https://b.example''"
  "url page_a2 = ''https://a.example''"
  by (simp_all add: page_a_def page_b_def page_a2_def)



lemma demo_first_occurrences:
  "first_occurrences [page_a, page_a2, page_b, page_b, page_a] = [page_a, page_b]"
  by code_simp

text \<open>
  C2. The deduplicated output of the orchestrator is exactly the elements of the interlaced
  sequence whose \<open>url\<close> no earlier element has, in interlaced order. Hence no two elements
  of it have the same \<open>url\<close>; for every \<open>url\<close> present in the interlaced sequence the
  surviving element is the first one with that \<open>url\<close> in interlaced order; and the
  survivors keep their interlaced relative order, the order of first occurrence.
\<close>

theorem serp_and_process_dedup:
  assumes "fst (serp_and_process post w search_queries N) = Inr out"
  shows "out = first_occurrences (interlaced_sites post w search_queries N)
     \<and> distinct (map url out)
     \<and> (\<forall>u \<in> url ` set (interlaced_sites post w search_queries N).
           find (\<lambda>s. url s = u) out =
             find (\<lambda>s. url s = u) (interlaced_sites post w search_queries N))
     \<and> subseq out (interlaced_sites post w search_queries N)"
proof -
  from assms have out: "out = dedup_loop (interlaced_sites post w search_queries N) {} []"
    by (simp add: serp_and_process_sites interlaced_sites_def)
  have first: "out = first_occurrences (interlaced_sites post w search_queries N)"
    by (simp add: out dedup_loop_first_occurrences)
  have rest: "distinct (map url out)
     \<and> (\<forall>u \<in> url ` set (interlaced_sites post w search_queries N).
           find (\<lambda>s. url s = u) out =
             find (\<lambda>s. url s = u) (interlaced_sites post w search_queries N))
     \<and> subseq out (interlaced_sites post w search_queries N)"
    unfolding out
    by (simp add: dedup_loop_distinct dedup_loop_find dedup_loop_subseq)
  from first rest show ?thesis by (rule conjI)
qed

theorem serp_and_process_dedup_witness:
  "\<exists>out. fst (serp_and_process (table_post demo_table) 0 [''one'', ''zz'', ''two words''] 3) = Inr out
     \<and> interlaced_sites (table_post demo_table) 0 [''one'', ''zz'', ''two words''] 3
         = [page_a, page_a2, page_b, page_b, page_a]
     \<and> out = [page_a, page_b]
     \<and> distinct (map url out)
     \<and> find (\<lambda>s. url s = ''https://a.example'') out = Some page_a
     \<and> find (\<lambda>s. url s = ''https://b.example'') out = Some page_b
     \<and> subseq out [page_a, page_a2, page_b, page_b, page_a]"
proof -
  let ?qs = "[''one'', ''zz'', ''two words'']"
  have inter: "interlaced_sites (table_post demo_table) 0 ?qs 3
      = [page_a, page_a2, page_b, page_b, page_a]"
    by (simp only: interlaced_sites_def demo_batch_partial successes.simps demo_interlaced)
  obtain out where ev: "fst (serp_and_process (table_post demo_table) 0 ?qs 3) = Inr out"
    by (simp add: serp_and_process_sites)
  note t = serp_and_process_dedup [OF ev]
  have "out = first_occurrences (interlaced_sites (table_post demo_table) 0 ?qs 3)"
    using t by blast
  then have o: "out = [page_a, page_b]"
    by (simp only: inter demo_first_occurrences)
  have d: "distinct (map url out)" using t by blast
  have "subseq out (interlaced_sites (table_post demo_table) 0 ?qs 3)"
    using t by blast
  then have s: "subseq out [page_a, page_a2, page_b, page_b, page_a]"
    by (simp only: inter)
  have ua: "''https://a.example'' \<in> url ` set (interlaced_sites (table_post demo_table) 0 ?qs 3)"
    and ub: "''https://b.example'' \<in> url ` set (interlaced_sites (table_post demo_table) 0 ?qs 3)"
    by (simp_all add: inter demo_urls)
  have "find (\<lambda>s. url s = ''https://a.example'') out =
      find (\<lambda>s. url s = ''https://a.example'') (interlaced_sites (table_post demo_table) 0 ?qs 3)"
    using t ua by blast
  then have fa: "find (\<lambda>s. url s = ''https://a.example'') out = Some page_a"
    by (simp add: inter demo_urls)
  have "find (\<lambda>s. url s = ''https://b.example'') out =
      find (\<lambda>s. url s = ''https://b.example'') (interlaced_sites (table_post demo_table) 0 ?qs 3)"
    using t ub by blast
  then have fb: "find (\<lambda>s. url s = ''https://b.example'') out = Some page_b"
    by (simp add: inter demo_urls)
  from ev inter o d fa fb s show ?thesis by blast
qed


section \<open>Properties of the scrape call\<close>

lemma scrape_url_object:
  assumes "post w \<lparr>url_to_scrape = page_url, formats = [format],
                    wait_before_scraping = wait_ms, request_timeout = timeout\<rparr> = (Inr r, w')"
    and "raise_for_status r = Inr ()" and "json_body r = Some (JObj d)"
    and "map_of d ''result'' = Some (JObj res)"
  shows "scrape_url post w page_url format wait_ms timeout =
     (Inr (case map_of res (format @ ''_content'') of None \<Rightarrow> JNull | Some v \<Rightarrow> v), w')"
  using assms by (simp add: scrape_url_def response_json_def)

lemma scrape_url_no_result:
  assumes "post w \<lparr>url_to_scrape = page_url, formats = [format],
                    wait_before_scraping = wait_ms, request_timeout = timeout\<rparr> = (Inr r, w')"
    and "raise_for_status r = Inr ()" and "json_body r = Some (JObj d)"
    and "map_of d ''result'' = None"
  shows "scrape_url post w page_url format wait_ms timeout = (Inl KeyError, w')"
  using assms by (simp add: scrape_url_def response_json_def)

text \<open>
  What the call does when the body of a successful response holds the nested \<open>result\<close>
  object: it returns the \<open><format>_content\<close> field of that object, and \<open>None\<close> (here
  \<^const>\<open>JNull\<close>) when the field is absent.
\<close>

lemma scrape_url_content:
  assumes "post w \<lparr>url_to_scrape = page_url, formats = [format],
                    wait_before_scraping = wait_ms, request_timeout = timeout\<rparr> = (Inr r, w')"
    and "raise_for_status r = Inr ()" and "json_body r = Some (JObj d)"
    and "map_of d ''result'' = Some (JObj res)"
  shows "(\<forall>content. map_of res (format @ ''_content'') = Some content \<longrightarrow>
            scrape_url post w page_url format wait_ms timeout = (Inr content, w'))
     \<and> (map_of res (format @ ''_content'') = None \<longrightarrow>
            scrape_url post w page_url format wait_ms timeout = (Inr JNull, w'))"
proof -
  have "scrape_url post w page_url format wait_ms timeout =
     (Inr (case map_of res (format @ ''_content'') of None \<Rightarrow> JNull | Some v \<Rightarrow> v), w')"
    using assms by (rule scrape_url_object)
  then show ?thesis by simp
qed

lemma scrape_url_content_example:
  "scrape_url (const_scraper (ok_response
       (JObj [(''result'', JObj [(''markdown_content'', JStr ''# Donors'')])])))
     0 ''https://x.example'' ''markdown'' 1000 60 = (Inr (JStr ''# Donors''), Suc 0)
   \<and> scrape_url (const_scraper (ok_response
       (JObj [(''result'', JObj [(''markdown_content'', JStr ''# Donors'')])])))
     0 ''https://x.example'' ''html'' 1000 60 = (Inr JNull, Suc 0)"
proof -
  let ?res = "[(''markdown_content'', JStr ''# Donors'')]"
  let ?d = "[(''result'', JObj ?res)]"
  let ?post = "const_scraper (ok_response (JObj ?d))"
  have p: "?post 0 \<lparr>url_to_scrape = ''https://x.example'', formats = [fmt],
      wait_before_scraping = 1000, request_timeout = 60\<rparr> = (Inr (ok_response (JObj ?d)), Suc 0)"
    for fmt by (simp add: const_scraper_def)
  have r: "map_of ?d ''result'' = Some (JObj ?res)" by simp
  note tm = scrape_url_content
    [where post = ?post and w = 0 and format = "''markdown''" and page_url = "''https://x.example''"
      and wait_ms = 1000 and timeout = 60, OF p ok_response_passes(1) ok_response_passes(2) r]
  note th = scrape_url_content
    [where post = ?post and w = 0 and format = "''html''" and page_url = "''https://x.example''"
      and wait_ms = 1000 and timeout = 60, OF p ok_response_passes(1) ok_response_passes(2) r]
  have m: "map_of ?res (''markdown'' @ ''_content'') = Some (JStr ''# Donors'')" by simp
  have h: "map_of ?res (''html'' @ ''_content'') = None" by simp
  from tm m have a: "scrape_url ?post 0 ''https://x.example'' ''markdown'' 1000 60
      = (Inr (JStr ''# Donors''), Suc 0)"
    by blast
  from th h have b: "scrape_url ?post 0 ''https://x.example'' ''html'' 1000 60 = (Inr JNull, Suc 0)"
    by blast
  from a b show ?thesis by simp
qed

lemma scrape_url_result_not_object:
  assumes "post w \<lparr>url_to_scrape = page_url, formats = [format],
                    wait_before_scraping = wait_ms, request_timeout = timeout\<rparr> = (Inr r, w')"
    and "raise_for_status r = Inr ()" and "json_body r = Some (JObj d)"
    and "map_of d ''result'' = Some JNull"
  shows "scrape_url post w page_url format wait_ms timeout = (Inl AttributeError, w')"
  using assms by (simp add: scrape_url_def response_json_def)

text \<open>
  C9. The claim is that for every successful scrape response \<open>scrape_url\<close> returns the
  \<open><format>_content\<close> field of the nested \<open>result\<close> object, and \<open>None\<close> rather than a
  failure whenever the field is absent; the docstring of the function says the same
  (\<open>None\<close> if failed, and no exception but the request's). The code does not do this on
  every successful response: line 72 reads \<^verbatim>\<open>data["result"]\<close> unguarded, so that a
  status-200 response whose body is the empty object raises \<open>KeyError\<close>, and one whose
  \<open>result\<close> is \<open>null\<close> raises \<open>AttributeError\<close>, where the field is absent and \<open>None\<close>
  is due.
\<close>

theorem scrape_url_missing_result_raises:
  "scrape_url (const_scraper (ok_response (JObj []))) 0 ''https://x.example'' ''markdown'' 1000 60
     = (Inl KeyError, Suc 0)
   \<and> scrape_url (const_scraper (ok_response (JObj [(''result'', JNull)]))) 0
       ''https://x.example'' ''markdown'' 1000 60
     = (Inl AttributeError, Suc 0)"
  by (simp add: scrape_url_def const_scraper_def ok_response_def raise_for_status_def
      response_json_def)

end
